theory Spec2Isabelle
  imports Main
begin

section \<open>Strings\<close>

text \<open>
  JavaScript strings are modelled as \<^typ>\<open>string\<close>: a list of code units, here
  restricted to the code units 0 to 255. The helpers below are the string
  primitives of the language that \<^verbatim>\<open>src/html-to-govspeak.js\<close> calls.
\<close>

abbreviation NL :: char where
  "NL \<equiv> CHR 0x0A"

text \<open>The class \<^verbatim>\<open>\d\<close> of a regular expression: the ten ASCII digits.\<close>

definition isDigit :: "char \<Rightarrow> bool" where
  "isDigit c = (48 \<le> (of_char c :: nat) \<and> (of_char c :: nat) \<le> 57)"

text \<open>
  The class \<^verbatim>\<open>\s\<close>, which is also what \<^verbatim>\<open>String.prototype.trim\<close> strips:
  white space and line terminators. Below code unit 256 these are tab, line
  feed, vertical tab, form feed, carriage return, space and no-break space.
\<close>

definition isSpace :: "char \<Rightarrow> bool" where
  "isSpace c = ((of_char c :: nat) \<in> {9, 10, 11, 12, 13, 32, 160})"

text \<open>\<^verbatim>\<open>String.prototype.trim\<close>.\<close>

definition trim :: "string \<Rightarrow> string" where
  "trim s = rev (dropWhile isSpace (rev (dropWhile isSpace s)))"

text \<open>\<^verbatim>\<open>String.prototype.charAt\<close>: the empty string when the index is out of range.\<close>

definition charAt :: "string \<Rightarrow> nat \<Rightarrow> string" where
  "charAt s i = (if i < length s then [s ! i] else [])"

section \<open>The escape step (line 38)\<close>

text \<open>\<^verbatim>\<open>service.escape = (string) => string\<close>\<close>

definition escape :: "string \<Rightarrow> string" where
  "escape string = string"

section \<open>The document tree\<close>

text \<open>
  The rules read a node of the parsed document through the DOM interface:
  its name, its attributes, its parent, the children of the parent and its
  siblings. A document is a tree of elements, text nodes and comments; a node
  inside the tree is addressed by its parent and its position among the
  parent's \<^verbatim>\<open>childNodes\<close>, which also stands for the identity of the node.
\<close>

datatype dom =
    Element string "(string \<times> string) list" "dom list"
  | Text string
  | Comment string

fun nodeName :: "dom \<Rightarrow> string" where
  "nodeName (Element name attrs kids) = name"
| "nodeName (Text t) = ''#text''"
| "nodeName (Comment t) = ''#comment''"

fun childNodes :: "dom \<Rightarrow> dom list" where
  "childNodes (Element name attrs kids) = kids"
| "childNodes (Text t) = []"
| "childNodes (Comment t) = []"

fun isElement :: "dom \<Rightarrow> bool" where
  "isElement (Element name attrs kids) = True"
| "isElement (Text t) = False"
| "isElement (Comment t) = False"

text \<open>\<^verbatim>\<open>getAttribute\<close> returns \<^verbatim>\<open>null\<close> (here \<open>None\<close>) for a missing attribute.\<close>

fun getAttribute :: "dom \<Rightarrow> string \<Rightarrow> string option" where
  "getAttribute (Element name attrs kids) a = map_of attrs a"
| "getAttribute (Text t) a = None"
| "getAttribute (Comment t) a = None"

text \<open>\<^verbatim>\<open>parent.children\<close>: the element children, each with its position.\<close>

definition children :: "dom \<Rightarrow> (nat \<times> dom) list" where
  "children parent =
    filter (\<lambda>(j, element). isElement element) (enumerate 0 (childNodes parent))"

text \<open>\<^verbatim>\<open>node.nextSibling\<close> of the node at position \<open>i\<close> of \<open>parent\<close>.\<close>

definition nextSibling :: "dom \<Rightarrow> nat \<Rightarrow> dom option" where
  "nextSibling parent i =
    (if Suc i < length (childNodes parent) then Some (childNodes parent ! Suc i) else None)"

text \<open>\<^verbatim>\<open>node.previousSibling\<close> of the node at position \<open>i\<close> of \<open>parent\<close>.\<close>

definition previousSibling :: "dom \<Rightarrow> nat \<Rightarrow> dom option" where
  "previousSibling parent i =
    (if 0 < i \<and> i \<le> length (childNodes parent) then Some (childNodes parent ! (i - 1))
     else None)"

text \<open>
  \<^verbatim>\<open>node.textContent\<close>: the data of a text node or of a comment; for an element
  the text of its descendants, comments left out.
\<close>

fun descendantText :: "dom \<Rightarrow> string" where
  "descendantText (Element name attrs kids) = concat (map descendantText kids)"
| "descendantText (Text t) = t"
| "descendantText (Comment t) = []"

fun textContent :: "dom \<Rightarrow> string" where
  "textContent (Element name attrs kids) = concat (map descendantText kids)"
| "textContent (Text t) = t"
| "textContent (Comment t) = t"

section \<open>Values of the language\<close>

text \<open>
  \<^verbatim>\<open>String.prototype.toLowerCase\<close> on the code units below 256: the letters A to Z
  and the capital letters of Latin-1 (192 to 222 but the multiplication sign).
\<close>

definition lowerChar :: "char \<Rightarrow> char" where
  "lowerChar c =
    (let n = (of_char c :: nat)
     in if (65 \<le> n \<and> n \<le> 90) \<or> (192 \<le> n \<and> n \<le> 222 \<and> n \<noteq> 215)
        then char_of (n + 32) else c)"

definition toLowerCase :: "string \<Rightarrow> string" where
  "toLowerCase s = map lowerChar s"

text \<open>Whether a string or \<^verbatim>\<open>null\<close> counts as true in a condition.\<close>

fun truthy :: "string option \<Rightarrow> bool" where
  "truthy None = False"
| "truthy (Some s) = (s \<noteq> [])"

text \<open>A string or \<^verbatim>\<open>null\<close> inside a template literal.\<close>

fun template :: "string option \<Rightarrow> string" where
  "template None = ''null''"
| "template (Some s) = s"

text \<open>\<^verbatim>\<open>Array.prototype.indexOf\<close>: the first position of \<open>x\<close>, or -1.\<close>

fun indexOf_from :: "int \<Rightarrow> 'a list \<Rightarrow> 'a \<Rightarrow> int" where
  "indexOf_from k [] x = - 1"
| "indexOf_from k (y # ys) x = (if y = x then k else indexOf_from (k + 1) ys x)"

definition indexOf :: "'a list \<Rightarrow> 'a \<Rightarrow> int" where
  "indexOf xs x = indexOf_from 0 xs x"

text \<open>\<^verbatim>\<open>Number.prototype.toString\<close> of an integer: its decimal digits.\<close>

fun digits :: "nat \<Rightarrow> string" where
  "digits n =
    (if n < 10 then [char_of (48 + n)] else digits (n div 10) @ [char_of (48 + n mod 10)])"

declare digits.simps [simp del]

definition toString :: "int \<Rightarrow> string" where
  "toString i = (if i < 0 then CHR ''-'' # digits (nat (- i)) else digits (nat i))"

subsection \<open>Objects used as dictionaries\<close>

text \<open>
  An object whose properties are strings or \<^verbatim>\<open>null\<close>: the list of its own
  properties in the order of their creation. An assignment to an existing
  property keeps its place. An assignment of a string to \<^verbatim>\<open>__proto__\<close> creates
  no property: the setter inherited from \<^verbatim>\<open>Object.prototype\<close> ignores it.
\<close>

type_synonym js_object = "(string \<times> string option) list"

fun obj_update :: "js_object \<Rightarrow> string \<Rightarrow> string option \<Rightarrow> js_object" where
  "obj_update [] key v = [(key, v)]"
| "obj_update ((k, w) # obj) key v =
    (if k = key then (k, v) # obj else (k, w) # obj_update obj key v)"

definition obj_set :: "js_object \<Rightarrow> string \<Rightarrow> string option \<Rightarrow> js_object" where
  "obj_set obj key v = (if key = ''__proto__'' then obj else obj_update obj key v)"

text \<open>
  The order in which \<^verbatim>\<open>Object.keys\<close> and \<^verbatim>\<open>for ... in\<close> visit the properties:
  first the keys that are array indices (the canonical decimal form of an
  integer from 0 to 4294967294), by ascending value, then the other keys in the
  order of their creation.
\<close>

definition toNumber :: "string \<Rightarrow> int" where
  "toNumber s = foldl (\<lambda>n c. 10 * n + (of_char c - 48)) 0 s"

definition isArrayIndex :: "string \<Rightarrow> bool" where
  "isArrayIndex s =
    (s \<noteq> [] \<and> list_all isDigit s \<and> (s = ''0'' \<or> take 1 s \<noteq> ''0'') \<and>
     toNumber s < 4294967295)"

definition ownKeys :: "js_object \<Rightarrow> string list" where
  "ownKeys obj =
    sort_key toNumber (filter isArrayIndex (map fst obj)) @
    filter (\<lambda>key. \<not> isArrayIndex key) (map fst obj)"

text \<open>A property read inside a template literal.\<close>

definition obj_template :: "js_object \<Rightarrow> string \<Rightarrow> string" where
  "obj_template obj key =
    (case map_of obj key of None \<Rightarrow> ''undefined'' | Some v \<Rightarrow> template v)"

section \<open>The options of the service (lines 3 to 5)\<close>

record options =
  bulletListMarker :: string
  listIndent :: string

definition service_options :: options where
  "service_options = \<lparr>bulletListMarker = ''-'', listIndent = ''   ''\<rparr>"

section \<open>The link rule (lines 42 to 53)\<close>

definition link_filter :: "dom \<Rightarrow> bool" where
  "link_filter node =
    (toLowerCase (nodeName node) = ''a'' \<and> truthy (getAttribute node ''href''))"

definition link_replacement :: "string \<Rightarrow> dom \<Rightarrow> string" where
  "link_replacement content node =
    (if trim content = [] then []
     else ''['' @ content @ '']('' @ template (getAttribute node ''href'') @ '')'')"

section \<open>The cleanUpNestedLinks rule (lines 134 to 143)\<close>

text \<open>\<^verbatim>\<open>/\]\($/\<close> matches a text that ends with \<^verbatim>\<open>](\<close>.\<close>

definition endsWithOpenLink :: "string \<Rightarrow> bool" where
  "endsWithOpenLink s = (2 \<le> length s \<and> drop (length s - 2) s = '']('')"

text \<open>
  The filter reads the node and its previous sibling. Where the condition of
  its \<^verbatim>\<open>if\<close> fails it returns \<^verbatim>\<open>undefined\<close>, which counts as false.
\<close>

definition cleanUpNestedLinks_filter :: "dom \<Rightarrow> dom option \<Rightarrow> bool" where
  "cleanUpNestedLinks_filter node previous =
    (case previous of
       None \<Rightarrow> False
     | Some sibling \<Rightarrow>
         toLowerCase (nodeName node) = ''a'' \<and> endsWithOpenLink (textContent sibling))"

text \<open>The replacement is the href attribute as it is, \<^verbatim>\<open>null\<close> when it is missing.\<close>

definition cleanUpNestedLinks_replacement :: "string \<Rightarrow> dom \<Rightarrow> string option" where
  "cleanUpNestedLinks_replacement content node = getAttribute node ''href''"

section \<open>The rule that converts an anchor\<close>

text \<open>
  Modelled from the spec: the lookup of a rule for a node, which is the
  library's and not under \<^verbatim>\<open>src/\<close>. The specification has the rules queried per
  node, the first match winning, and "built-in rules overridable by
  later-registered custom rules"; in its table of the custom rules the anchor
  that follows a sibling whose text ends in \<^verbatim>\<open>](\<close> gets the bare href, with
  no exception for an anchor that has an href. Two rules of the source have a
  filter that an anchor can pass: \<^verbatim>\<open>link\<close> (line 42) and
  \<^verbatim>\<open>cleanUpNestedLinks\<close> (line 134), which is added later and asked first.
  The filters of the other added rules ask for another node name. A node that
  the library finds blank does not reach this lookup; that check is the
  library's.
\<close>

datatype anchor_rule = CleanUpNestedLinks | Link | NoAddedRule

definition anchor_rule :: "dom \<Rightarrow> dom option \<Rightarrow> anchor_rule" where
  "anchor_rule node previous =
    (if cleanUpNestedLinks_filter node previous then CleanUpNestedLinks
     else if link_filter node then Link
     else NoAddedRule)"

section \<open>The abbr rule (lines 55 to 76)\<close>

text \<open>
  The rule object keeps the accumulator \<^verbatim>\<open>references\<close>, an object that is empty
  when the rule is created (line 63). \<^verbatim>\<open>replacement\<close> and \<^verbatim>\<open>append\<close> change
  it, so both take it and return it with their result.
\<close>

definition abbr_filter :: "dom \<Rightarrow> bool" where
  "abbr_filter node =
    (toLowerCase (nodeName node) = ''abbr'' \<and> truthy (getAttribute node ''title''))"

definition abbr_replacement :: "string \<Rightarrow> dom \<Rightarrow> js_object \<Rightarrow> string \<times> js_object" where
  "abbr_replacement content node references =
    (content, obj_set references content (getAttribute node ''title''))"

definition abbr_append :: "js_object \<Rightarrow> string \<times> js_object" where
  "abbr_append references =
    (if length (ownKeys references) = 0 then ([], references)
     else (foldl (\<lambda>acc abbr.
                    acc @ ''*['' @ abbr @ '']: '' @ obj_template references abbr @ [NL])
             [NL, NL] (ownKeys references),
           []))"

text \<open>
  The accumulator after the rule has replaced the abbr elements \<open>es\<close>, given
  in document order, each with its converted content.
\<close>

definition abbr_record :: "js_object \<Rightarrow> (string \<times> dom) list \<Rightarrow> js_object" where
  "abbr_record references es =
    foldl (\<lambda>r (content, node). snd (abbr_replacement content node r)) references es"

section \<open>The heading rule (lines 81 to 96)\<close>

text \<open>
  The replacement function of the rule, applied to the converted content of
  the node and to the node. Only the name of the node is read.
\<close>

definition heading_replacement :: "string \<Rightarrow> dom \<Rightarrow> string" where
  "heading_replacement content node =
    (let number = charAt (nodeName node) 1;
         prefix = (if number = ''1'' \<or> number = ''2'' then ''## ''
                   else if number = ''3'' \<or> number = ''4'' \<or> number = ''5'' then ''### ''
                   else '''')
     in [NL, NL] @ prefix @ content @ [NL, NL])"

section \<open>The listItems rule (lines 172 to 193)\<close>

text \<open>\<^verbatim>\<open>.replace(/^\n+/, '')\<close>\<close>

definition removeLeadingNewlines :: "string \<Rightarrow> string" where
  "removeLeadingNewlines s = dropWhile (\<lambda>c. c = NL) s"

text \<open>\<^verbatim>\<open>/\n$/.test(s)\<close>\<close>

definition endsWithNewline :: "string \<Rightarrow> bool" where
  "endsWithNewline s = (s \<noteq> [] \<and> last s = NL)"

text \<open>\<^verbatim>\<open>.replace(/\n+$/, new)\<close>: the line feeds that end the text, when there are any.\<close>

definition replaceTrailingNewlines :: "string \<Rightarrow> string \<Rightarrow> string" where
  "replaceTrailingNewlines s new =
    (if endsWithNewline s then rev (dropWhile (\<lambda>c. c = NL) (rev s)) @ new else s)"

text \<open>\<^verbatim>\<open>.replace(/\n/gm, `\n${indent}`)\<close>\<close>

definition indentNewlines :: "string \<Rightarrow> string \<Rightarrow> string" where
  "indentNewlines indent s = concat (map (\<lambda>c. if c = NL then NL # indent else [c]) s)"

text \<open>
  The prefix of the item at position \<open>i\<close> of \<open>parent\<close> (lines 180 to 188) and
  the replacement function of the rule.
\<close>

definition listItems_prefix :: "dom \<Rightarrow> nat \<Rightarrow> options \<Rightarrow> string" where
  "listItems_prefix parent i opts =
    (if toLowerCase (nodeName parent) = ''ol''
     then (let listItems = filter (\<lambda>(j, element). toLowerCase (nodeName element) = ''li'')
                             (children parent);
               index = indexOf (map fst listItems) i
           in toString (index + 1) @ ''. '')
     else bulletListMarker opts @ '' '')"

definition listItems_replacement :: "string \<Rightarrow> dom \<Rightarrow> nat \<Rightarrow> options \<Rightarrow> string" where
  "listItems_replacement content parent i opts =
    (let content' = indentNewlines (listIndent opts)
                      (replaceTrailingNewlines (removeLeadingNewlines content) [NL]);
         prefix = listItems_prefix parent i opts
     in prefix @ content' @
        (if nextSibling parent i \<noteq> None \<and> \<not> endsWithNewline content' then [NL] else []))"

section \<open>Post-processing (lines 195 to 219)\<close>

text \<open>
  \<^verbatim>\<open>extractHeadingsFromLists\<close> replaces every match of
  \<^verbatim>\<open>/\d\.\s(#{2,3})/g\<close> by its group. Matches are found from left to right
  and do not overlap; the quantifier is greedy, so a third \<^verbatim>\<open>#\<close> belongs to
  the match when it is there.
\<close>

fun extractHeadingsFromLists :: "string \<Rightarrow> string" where
  "extractHeadingsFromLists (d # p # w # h1 # h2 # rest) =
    (if isDigit d \<and> p = CHR ''.'' \<and> isSpace w \<and> h1 = CHR ''#'' \<and> h2 = CHR ''#''
     then (case rest of
             [] \<Rightarrow> ''##''
           | h3 # rest' \<Rightarrow>
               if h3 = CHR ''#'' then ''###'' @ extractHeadingsFromLists rest'
               else ''##'' @ extractHeadingsFromLists rest)
     else d # extractHeadingsFromLists (p # w # h1 # h2 # rest))"
| "extractHeadingsFromLists (c # cs) = c # extractHeadingsFromLists cs"
| "extractHeadingsFromLists [] = []"

text \<open>
  The line-break marker \<^verbatim>\<open>service.options.br\<close>. The source does not set it, so it
  is the default of the library: two spaces, as the comment in
  \<^verbatim>\<open>removeBrParagraphs\<close> shows (\<^verbatim>\<open>"Text\n\n  \n\nMore Text"\<close>).
\<close>

definition br :: string where
  "br = ''  ''"

text \<open>
  \<^verbatim>\<open>skipBrLines\<close> is the greedy group \<^verbatim>\<open>(${br}\n)+\<close> once it has matched at
  least once: it drops every further marker line.
\<close>

fun skipBrLines :: "string \<Rightarrow> string" where
  "skipBrLines (a # b # c # rest) =
    (if [a, b] = br \<and> c = NL then skipBrLines rest else a # b # c # rest)"
| "skipBrLines s = s"

lemma length_skipBrLines: "length (skipBrLines s) \<le> length s"
  by (induction s rule: skipBrLines.induct) auto

text \<open>The optional \<^verbatim>\<open>\n?\<close> that ends the pattern.\<close>

fun skipOptionalNewline :: "string \<Rightarrow> string" where
  "skipOptionalNewline (c # cs) = (if c = NL then cs else c # cs)"
| "skipOptionalNewline [] = []"

lemma length_skipOptionalNewline: "length (skipOptionalNewline s) \<le> length s"
  by (cases s) auto

text \<open>
  \<^verbatim>\<open>removeBrParagraphs\<close> replaces every match of
  \<^verbatim>\<open>new RegExp(`\n(${service.options.br}\n)+\n?`, 'g')\<close> by one line feed.
\<close>

function removeBrParagraphs :: "string \<Rightarrow> string" where
  "removeBrParagraphs [] = []"
| "removeBrParagraphs (c # cs) =
    (if c = NL \<and> take 3 cs = br @ [NL]
     then NL # removeBrParagraphs (skipOptionalNewline (skipBrLines cs))
     else c # removeBrParagraphs cs)"
  by pat_completeness auto
termination
proof (relation "measure length")
  fix c :: char and cs :: string
  have "length (skipOptionalNewline (skipBrLines cs)) \<le> length cs"
    using length_skipOptionalNewline [of "skipBrLines cs"] length_skipBrLines [of cs]
    by linarith
  then show "(skipOptionalNewline (skipBrLines cs), c # cs) \<in> measure length"
    by simp
qed auto

definition postProcess :: "string \<Rightarrow> string" where
  "postProcess govspeak =
    (let govspeakWithExtractedHeadings = extractHeadingsFromLists govspeak;
         brsRemoved = removeBrParagraphs govspeakWithExtractedHeadings;
         whitespaceStripped = trim brsRemoved
     in whitespaceStripped)"

text \<open>
  The order of the specification, for comparison: line-break collapse first,
  heading de-listing second, trim third.
\<close>

definition postProcess_spec_order :: "string \<Rightarrow> string" where
  "postProcess_spec_order govspeak =
    trim (extractHeadingsFromLists (removeBrParagraphs govspeak))"

section \<open>The conversion (lines 221 to 224)\<close>




section \<open>Notions of the specification\<close>

text \<open>The distinct elements of a list in the order in which each is first met.\<close>

fun firstSeen :: "'a list \<Rightarrow> 'a list" where
  "firstSeen [] = []"
| "firstSeen (x # xs) = x # filter (\<lambda>y. y \<noteq> x) (firstSeen xs)"

text \<open>
  The title recorded for an abbreviation text: that of the last abbr element
  with this text.
\<close>

definition recordedTitle :: "(string \<times> dom) list \<Rightarrow> string \<Rightarrow> string" where
  "recordedTitle es abbr =
    (case map_of (rev es) abbr of
       None \<Rightarrow> ''undefined''
     | Some node \<Rightarrow> template (getAttribute node ''title''))"

text \<open>
  A text holds a numbered heading marker when \<^verbatim>\<open>/\d\.\s(#{2,3})/\<close> matches
  somewhere in it, and an orphaned marker line when the pattern of
  \<^verbatim>\<open>removeBrParagraphs\<close> matches somewhere in it.
\<close>

fun listedHeading :: "string \<Rightarrow> bool" where
  "listedHeading (d # p # w # h1 # h2 # rest) =
    ((isDigit d \<and> p = CHR ''.'' \<and> isSpace w \<and> h1 = CHR ''#'' \<and> h2 = CHR ''#'') \<or>
     listedHeading (p # w # h1 # h2 # rest))"
| "listedHeading s = False"

fun brParagraph :: "string \<Rightarrow> bool" where
  "brParagraph [] = False"
| "brParagraph (c # cs) = ((c = NL \<and> take 3 cs = br @ [NL]) \<or> brParagraph cs)"

text \<open>An li element.\<close>

definition isListItem :: "dom \<Rightarrow> bool" where
  "isListItem element = (isElement element \<and> toLowerCase (nodeName element) = ''li'')"

section \<open>Properties of the accumulator\<close>

lemma keys_obj_update:
  "map fst (obj_update obj key v) =
     (if key \<in> set (map fst obj) then map fst obj else map fst obj @ [key])"
  by (induction obj key v rule: obj_update.induct) auto

lemma map_of_obj_update: "map_of (obj_update obj key v) = (map_of obj)(key \<mapsto> v)"
  by (induction obj key v rule: obj_update.induct) (auto simp: fun_eq_iff)

lemma abbr_record_Nil: "abbr_record obj [] = obj"
  by (simp add: abbr_record_def)

lemma abbr_record_Cons:
  "abbr_record obj ((content, node) # es) =
     abbr_record (obj_set obj content (getAttribute node ''title'')) es"
  by (simp add: abbr_record_def abbr_replacement_def)

lemma set_firstSeen: "set (firstSeen xs) = set xs"
  by (induction xs) auto

text \<open>
  The keys of the accumulator are the abbreviation texts in the order in which
  each was first recorded.
\<close>

lemma keys_abbr_record:
  "''__proto__'' \<notin> set (map fst es) \<Longrightarrow>
   map fst (abbr_record obj es) =
     map fst obj @ filter (\<lambda>key. key \<notin> set (map fst obj)) (firstSeen (map fst es))"
proof (induction es arbitrary: obj)
  case Nil
  then show ?case by (simp add: abbr_record_Nil)
next
  case (Cons e es)
  obtain content node where e: "e = (content, node)" by (cases e)
  let ?obj = "obj_set obj content (getAttribute node ''title'')"
  from Cons.prems e have np: "content \<noteq> ''__proto__''"
    and rest: "''__proto__'' \<notin> set (map fst es)"
    by auto
  have keys: "map fst ?obj =
      (if content \<in> set (map fst obj) then map fst obj else map fst obj @ [content])"
    using np by (simp add: obj_set_def keys_obj_update)
  have "map fst (abbr_record obj (e # es)) = map fst (abbr_record ?obj es)"
    by (simp add: e abbr_record_Cons)
  also have "\<dots> =
      map fst ?obj @ filter (\<lambda>key. key \<notin> set (map fst ?obj)) (firstSeen (map fst es))"
    by (rule Cons.IH [OF rest])
  also have "\<dots> =
      map fst obj @ filter (\<lambda>key. key \<notin> set (map fst obj)) (firstSeen (map fst (e # es)))"
  proof (cases "content \<in> set (map fst obj)")
    case True
    have "filter (\<lambda>key. key \<notin> set (map fst obj))
            (filter (\<lambda>y. y \<noteq> content) (firstSeen (map fst es)))
        = filter (\<lambda>key. key \<notin> set (map fst obj)) (firstSeen (map fst es))"
      using True by (auto intro!: filter_cong)
    with True show ?thesis by (simp add: keys e)
  next
    case False
    have "filter (\<lambda>key. key \<notin> set (map fst obj))
            (filter (\<lambda>y. y \<noteq> content) (firstSeen (map fst es)))
        = filter (\<lambda>key. key \<notin> set (map fst obj) \<and> key \<noteq> content)
            (firstSeen (map fst es))"
      by (auto intro!: filter_cong)
    with False show ?thesis by (simp add: keys e)
  qed
  finally show ?case .
qed

text \<open>A later title for the same text replaces the earlier one.\<close>

lemma map_of_abbr_record:
  "''__proto__'' \<notin> set (map fst es) \<Longrightarrow>
   map_of (abbr_record obj es) =
     map_of obj ++
     map_of (rev (map (\<lambda>(content, node). (content, getAttribute node ''title'')) es))"
proof (induction es arbitrary: obj)
  case Nil
  then show ?case by (simp add: abbr_record_Nil)
next
  case (Cons e es)
  obtain content node where e: "e = (content, node)" by (cases e)
  from Cons.prems e have np: "content \<noteq> ''__proto__''"
    and rest: "''__proto__'' \<notin> set (map fst es)"
    by auto
  show ?case
    using Cons.IH [OF rest, of "obj_set obj content (getAttribute node ''title'')"] np
    by (simp add: e abbr_record_Cons obj_set_def map_of_obj_update fun_eq_iff map_add_def
        split: option.splits)
qed

lemma obj_template_abbr_record:
  assumes "''__proto__'' \<notin> set (map fst es)"
  shows "obj_template (abbr_record [] es) abbr = recordedTitle es abbr"
proof -
  have "map_of (abbr_record [] es) abbr =
      map_of (map (\<lambda>(content, node). (content, getAttribute node ''title'')) (rev es)) abbr"
    using map_of_abbr_record [OF assms, of "[]"] by (simp add: rev_map)
  also have "\<dots> = map_option (\<lambda>node. getAttribute node ''title'') (map_of (rev es) abbr)"
    by (simp add: map_of_map)
  finally show ?thesis
    by (simp add: obj_template_def recordedTitle_def split: option.splits)
qed

lemma ownKeys_no_index:
  assumes "\<forall>key \<in> set (map fst obj). \<not> isArrayIndex key"
  shows "ownKeys obj = map fst obj"
proof -
  have 1: "filter isArrayIndex (map fst obj) = []"
    using assms by (auto simp: filter_empty_conv)
  have 2: "filter (\<lambda>key. \<not> isArrayIndex key) (map fst obj) = map fst obj"
    using assms by (auto simp: filter_id_conv)
  show ?thesis
    unfolding ownKeys_def 1 2 by simp
qed



lemma foldl_append_lines: "foldl (\<lambda>acc x. acc @ f x) s xs = s @ concat (map f xs)"
  by (induction xs arbitrary: s) auto

section \<open>Properties of the position among the list items\<close>

lemma indexOf_from_enumerate:
  "i < length xs \<Longrightarrow> P (xs ! i) \<Longrightarrow>
   indexOf_from k (map fst (filter (\<lambda>(j, element). P element) (enumerate n xs))) (n + i) =
     k + int (length (filter P (take i xs)))"
proof (induction xs arbitrary: i k n)
  case Nil
  then show ?case by simp
next
  case (Cons x xs)
  show ?case
  proof (cases i)
    case 0
    with Cons.prems show ?thesis by simp
  next
    case (Suc i')
    with Cons.prems have i': "i' < length xs" and P: "P (xs ! i')" by auto
    show ?thesis
      using Cons.IH [OF i' P, of "k + 1" "Suc n"] Cons.IH [OF i' P, of k "Suc n"]
      by (simp add: Suc)
  qed
qed

lemma listItems_index:
  assumes "i < length (childNodes parent)" and "isListItem (childNodes parent ! i)"
  shows "indexOf (map fst (filter (\<lambda>(j, element). toLowerCase (nodeName element) = ''li'')
                             (children parent))) i =
         int (length (filter isListItem (take i (childNodes parent))))"
proof -
  have "filter (\<lambda>(j, element). toLowerCase (nodeName element) = ''li'') (children parent) =
        filter (\<lambda>(j, element). isListItem element) (enumerate 0 (childNodes parent))"
    by (auto simp: children_def isListItem_def intro!: filter_cong)
  then show ?thesis
    using indexOf_from_enumerate [of i "childNodes parent" isListItem 0 0] assms
    by (simp add: indexOf_def)
qed

section \<open>Properties of the post-processing steps\<close>

text \<open>The condition of the first equation of \<^verbatim>\<open>extractHeadingsFromLists\<close>, named.\<close>

definition listedAt :: "char \<Rightarrow> char \<Rightarrow> char \<Rightarrow> char \<Rightarrow> char \<Rightarrow> bool" where
  "listedAt d p w h1 h2 =
    (isDigit d \<and> p = CHR ''.'' \<and> isSpace w \<and> h1 = CHR ''#'' \<and> h2 = CHR ''#'')"

lemma extract_match_Nil:
  assumes "listedAt d p w h1 h2"
  shows "extractHeadingsFromLists [d, p, w, h1, h2] = ''##''"
proof -
  from assms have m: "isDigit d \<and> p = CHR ''.'' \<and> isSpace w \<and> h1 = CHR ''#'' \<and> h2 = CHR ''#''"
    unfolding listedAt_def .
  show ?thesis
    by (subst extractHeadingsFromLists.simps(1)) (simp only: if_P [OF m] list.case)
qed

lemma extract_match_hash:
  assumes "listedAt d p w h1 h2"
  shows "extractHeadingsFromLists (d # p # w # h1 # h2 # CHR ''#'' # rest') =
     ''###'' @ extractHeadingsFromLists rest'"
proof -
  from assms have m: "isDigit d \<and> p = CHR ''.'' \<and> isSpace w \<and> h1 = CHR ''#'' \<and> h2 = CHR ''#''"
    unfolding listedAt_def .
  show ?thesis
    by (subst extractHeadingsFromLists.simps(1)) (simp only: if_P [OF m] list.case simp_thms if_True)
qed

lemma extract_match_other:
  assumes "listedAt d p w h1 h2" and "h3 \<noteq> CHR ''#''"
  shows "extractHeadingsFromLists (d # p # w # h1 # h2 # h3 # rest') =
     ''##'' @ extractHeadingsFromLists (h3 # rest')"
proof -
  from assms have m: "isDigit d \<and> p = CHR ''.'' \<and> isSpace w \<and> h1 = CHR ''#'' \<and> h2 = CHR ''#''"
    unfolding listedAt_def by simp
  show ?thesis
    by (subst extractHeadingsFromLists.simps(1))
      (simp only: if_P [OF m] list.case if_not_P [OF assms(2)])
qed

lemma extract_no_match:
  assumes "\<not> listedAt d p w h1 h2"
  shows "extractHeadingsFromLists (d # p # w # h1 # h2 # rest) =
     d # extractHeadingsFromLists (p # w # h1 # h2 # rest)"
proof -
  from assms have m: "\<not> (isDigit d \<and> p = CHR ''.'' \<and> isSpace w \<and> h1 = CHR ''#'' \<and> h2 = CHR ''#'')"
    unfolding listedAt_def .
  show ?thesis
    by (subst extractHeadingsFromLists.simps(1)) (simp only: if_not_P [OF m])
qed

lemma listedHeading_step:
  "listedHeading (d # p # w # h1 # h2 # rest) =
     (listedAt d p w h1 h2 \<or> listedHeading (p # w # h1 # h2 # rest))"
  unfolding listedAt_def by (simp only: listedHeading.simps)

lemma length_extractHeadingsFromLists: "length (extractHeadingsFromLists s) \<le> length s"
proof (induction s rule: extractHeadingsFromLists.induct)
  case (1 d p w h1 h2 rest)
  show ?case
  proof (cases "listedAt d p w h1 h2")
    case True
    then have m: "isDigit d \<and> p = CHR ''.'' \<and> isSpace w \<and> h1 = CHR ''#'' \<and> h2 = CHR ''#''"
      unfolding listedAt_def .
    show ?thesis
    proof (cases rest)
      case Nil
      then show ?thesis by (simp only: extract_match_Nil [OF True]) simp
    next
      case (Cons h3 rest')
      show ?thesis
      proof (cases "h3 = CHR ''#''")
        case h: True
        have "length (extractHeadingsFromLists rest') \<le> length rest'"
          using "1.IH"(1) [OF m Cons h] .
        then show ?thesis
          unfolding Cons h extract_match_hash [OF True] by simp
      next
        case h: False
        have "length (extractHeadingsFromLists rest) \<le> length rest"
          using "1.IH"(2) [OF m Cons h] .
        then show ?thesis
          unfolding Cons extract_match_other [OF True h] by simp
      qed
    qed
  next
    case False
    then have m: "\<not> (isDigit d \<and> p = CHR ''.'' \<and> isSpace w \<and> h1 = CHR ''#'' \<and> h2 = CHR ''#'')"
      unfolding listedAt_def .
    have "length (extractHeadingsFromLists (p # w # h1 # h2 # rest)) \<le> length (p # w # h1 # h2 # rest)"
      using "1.IH"(3) [OF m] .
    then show ?thesis
      unfolding extract_no_match [OF False] by simp
  qed
qed simp_all

lemma extractHeadingsFromLists_shorter:
  "listedHeading s \<Longrightarrow> length (extractHeadingsFromLists s) < length s"
proof (induction s rule: listedHeading.induct)
  case (1 d p w h1 h2 rest)
  show ?case
  proof (cases "listedAt d p w h1 h2")
    case True
    show ?thesis
    proof (cases rest)
      case Nil
      then show ?thesis by (simp only: extract_match_Nil [OF True]) simp
    next
      case (Cons h3 rest')
      show ?thesis
      proof (cases "h3 = CHR ''#''")
        case h: True
        show ?thesis
          using length_extractHeadingsFromLists [of rest']
          unfolding Cons h extract_match_hash [OF True] by simp
      next
        case h: False
        show ?thesis
          using length_extractHeadingsFromLists [of "h3 # rest'"]
          unfolding Cons extract_match_other [OF True h] by simp
      qed
    qed
  next
    case False
    with "1.prems" have "listedHeading (p # w # h1 # h2 # rest)"
      unfolding listedHeading_step by blast
    then have "length (extractHeadingsFromLists (p # w # h1 # h2 # rest)) < length (p # w # h1 # h2 # rest)"
      by (rule "1.IH")
    then show ?thesis
      unfolding extract_no_match [OF False] by simp
  qed
qed simp_all

lemma extractHeadingsFromLists_id:
  "\<not> listedHeading s \<Longrightarrow> extractHeadingsFromLists s = s"
proof (induction s rule: listedHeading.induct)
  case (1 d p w h1 h2 rest)
  from "1.prems" have n: "\<not> listedAt d p w h1 h2" and r: "\<not> listedHeading (p # w # h1 # h2 # rest)"
    unfolding listedHeading_step by blast+
  show ?case
    unfolding extract_no_match [OF n] using "1.IH" [OF r] by simp
qed simp_all

lemma removeBr_match:
  assumes "c = NL \<and> take 3 cs = br @ [NL]"
  shows "removeBrParagraphs (c # cs) =
           NL # removeBrParagraphs (skipOptionalNewline (skipBrLines cs))"
  by (subst removeBrParagraphs.simps(2)) (simp only: if_P [OF assms])

lemma removeBr_no_match:
  assumes "\<not> (c = NL \<and> take 3 cs = br @ [NL])"
  shows "removeBrParagraphs (c # cs) = c # removeBrParagraphs cs"
  by (subst removeBrParagraphs.simps(2)) (simp only: if_not_P [OF assms])

lemma removeBrParagraphs_id: "\<not> brParagraph s \<Longrightarrow> removeBrParagraphs s = s"
proof (induction s)
  case Nil
  then show ?case by simp
next
  case (Cons c cs)
  from Cons.prems have n: "\<not> (c = NL \<and> take 3 cs = br @ [NL])" and r: "\<not> brParagraph cs"
    unfolding brParagraph.simps by blast+
  show ?case
    unfolding removeBr_no_match [OF n] using Cons.IH [OF r] by simp
qed

lemma length_skipped: "length (skipOptionalNewline (skipBrLines cs)) \<le> length cs"
  using length_skipOptionalNewline [of "skipBrLines cs"] length_skipBrLines [of cs]
  by linarith

lemma length_removeBrParagraphs: "length (removeBrParagraphs s) \<le> length s"
proof (induction s rule: removeBrParagraphs.induct)
  case 1
  then show ?case by simp
next
  case (2 c cs)
  show ?case
  proof (cases "c = NL \<and> take 3 cs = br @ [NL]")
    case True
    then have "length (removeBrParagraphs (skipOptionalNewline (skipBrLines cs)))
        \<le> length (skipOptionalNewline (skipBrLines cs))"
      by (rule "2.IH"(1))
    with length_skipped [of cs] show ?thesis
      unfolding removeBr_match [OF True] by simp
  next
    case False
    then have "length (removeBrParagraphs cs) \<le> length cs"
      by (rule "2.IH"(2))
    then show ?thesis
      unfolding removeBr_no_match [OF False] by simp
  qed
qed

lemma skipBrLines_marker: "skipBrLines (br @ [NL] @ rest) = skipBrLines rest"
  by (simp add: br_def)

lemma removeBrParagraphs_shorter:
  "brParagraph s \<Longrightarrow> length (removeBrParagraphs s) < length s"
proof (induction s)
  case Nil
  then show ?case by simp
next
  case (Cons c cs)
  show ?case
  proof (cases "c = NL \<and> take 3 cs = br @ [NL]")
    case True
    then have "cs = (br @ [NL]) @ drop 3 cs"
      using append_take_drop_id [of 3 cs] by simp
    then obtain rest where cs: "cs = br @ [NL] @ rest"
      by auto
    have "length (skipBrLines cs) \<le> length rest"
      unfolding cs skipBrLines_marker by (rule length_skipBrLines)
    then have "length (skipOptionalNewline (skipBrLines cs)) \<le> length rest"
      using length_skipOptionalNewline [of "skipBrLines cs"] by linarith
    then have "length (removeBrParagraphs (skipOptionalNewline (skipBrLines cs))) \<le> length rest"
      using length_removeBrParagraphs [of "skipOptionalNewline (skipBrLines cs)"] by linarith
    moreover have "length cs = 3 + length rest"
      by (simp add: cs br_def)
    ultimately show ?thesis
      unfolding removeBr_match [OF True] by simp
  next
    case False
    with Cons.prems have "brParagraph cs"
      unfolding brParagraph.simps by blast
    then have "length (removeBrParagraphs cs) < length cs" by (rule Cons.IH)
    then show ?thesis
      unfolding removeBr_no_match [OF False] by simp
  qed
qed

lemma trim_id:
  assumes "s = [] \<or> (\<not> isSpace (hd s) \<and> \<not> isSpace (last s))"
  shows "trim s = s"
proof (cases s)
  case Nil
  then show ?thesis by (simp add: trim_def)
next
  case (Cons c cs)
  with assms have h: "\<not> isSpace (hd s)" and l: "\<not> isSpace (last s)" by auto
  have 1: "dropWhile isSpace s = s"
    using h Cons by simp
  have "rev s \<noteq> []" using Cons by simp
  moreover have "hd (rev s) = last s" using Cons by (simp add: hd_rev)
  ultimately have 2: "dropWhile isSpace (rev s) = rev s"
    using l by (simp add: dropWhile_eq_self_iff)
  show ?thesis by (simp add: trim_def 1 2)
qed

lemma length_trim: "length (trim s) \<le> length s"
proof -
  have "length (dropWhile isSpace (rev (dropWhile isSpace s))) \<le> length (rev (dropWhile isSpace s))"
    by (rule length_dropWhile_le)
  moreover have "length (dropWhile isSpace s) \<le> length s"
    by (rule length_dropWhile_le)
  ultimately show ?thesis by (simp add: trim_def)
qed

lemma trim_shorter:
  assumes "s \<noteq> []" and "isSpace (hd s) \<or> isSpace (last s)"
  shows "length (trim s) < length s"
proof (cases "isSpace (hd s)")
  case True
  with assms(1) obtain c cs where s: "s = c # cs" and c: "isSpace c" by (cases s) auto
  have "length (trim s) \<le> length (dropWhile isSpace cs)"
    using length_dropWhile_le [of isSpace "rev (dropWhile isSpace cs)"]
    by (simp add: trim_def s c)
  also have "\<dots> \<le> length cs" by (rule length_dropWhile_le)
  finally show ?thesis by (simp add: s)
next
  case False
  with assms have l: "isSpace (last s)" by simp
  from False assms(1) have d: "dropWhile isSpace s = s" by (cases s) auto
  from assms(1) obtain c cs where r: "rev s = c # cs" by (cases "rev s") auto
  have "hd (rev s) = last s" using assms(1) by (simp add: hd_rev)
  with r have "c = last s" by simp
  with l have c: "isSpace c" by simp
  have "length (trim s) = length (dropWhile isSpace cs)"
    by (simp add: trim_def d r c)
  also have "\<dots> \<le> length cs" by (rule length_dropWhile_le)
  also have "\<dots> < length s"
  proof -
    have "length (rev s) = Suc (length cs)" by (simp add: r)
    then show ?thesis by simp
  qed
  finally show ?thesis .
qed

section \<open>Headings\<close>

text \<open>
  C1. The heading rule maps a node named h1 or h2 to a level-2 heading
  (\<^verbatim>\<open>## \<close> before the content), h3, h4 and h5 to a level-3 heading
  (\<^verbatim>\<open>### \<close> before the content) and h6 to the bare content; in each case
  the result starts and ends with two line feeds. The rule reads the second
  character of the node name only, so the first character \<open>h\<close> is arbitrary
  (the DOM reports \<^verbatim>\<open>H1\<close> for an HTML element), as are the attributes
  and the children of the element.
\<close>

theorem heading_replacement_levels:
  "heading_replacement X (Element (h # ''1'') attrs kids) = [NL, NL] @ ''## '' @ X @ [NL, NL] \<and>
   heading_replacement X (Element (h # ''2'') attrs kids) = [NL, NL] @ ''## '' @ X @ [NL, NL] \<and>
   heading_replacement X (Element (h # ''3'') attrs kids) = [NL, NL] @ ''### '' @ X @ [NL, NL] \<and>
   heading_replacement X (Element (h # ''4'') attrs kids) = [NL, NL] @ ''### '' @ X @ [NL, NL] \<and>
   heading_replacement X (Element (h # ''5'') attrs kids) = [NL, NL] @ ''### '' @ X @ [NL, NL] \<and>
   heading_replacement X (Element (h # ''6'') attrs kids) = [NL, NL] @ X @ [NL, NL]"
  by (simp add: heading_replacement_def charAt_def)

section \<open>Links\<close>

text \<open>\<^verbatim>\<open><p>[x](<a href="https://www.gov.uk">GOV.UK</a></p>\<close>\<close>

definition nested_link :: dom where
  "nested_link = Element ''P'' []
     [Text ''[x]('', Element ''A'' [(''href'', ''https://www.gov.uk'')] [Text ''GOV.UK'']]"

text \<open>
  C2, as the specification states it, fails for an anchor that follows a
  sibling whose text ends in \<^verbatim>\<open>](\<close>. The anchor of the paragraph above has
  an href and a content that does not trim to empty, and it passes the filter
  of the link rule; but the rule that converts it is \<^verbatim>\<open>cleanUpNestedLinks\<close>,
  which returns the bare href and not \<^verbatim>\<open>[GOV.UK](https://www.gov.uk)\<close>.
\<close>

theorem anchor_after_open_link_counterexample:
  "link_filter (childNodes nested_link ! 1) \<and>
   getAttribute (childNodes nested_link ! 1) ''href'' = Some ''https://www.gov.uk'' \<and>
   trim ''GOV.UK'' \<noteq> [] \<and>
   anchor_rule (childNodes nested_link ! 1) (previousSibling nested_link 1) = CleanUpNestedLinks \<and>
   cleanUpNestedLinks_replacement ''GOV.UK'' (childNodes nested_link ! 1) =
     Some ''https://www.gov.uk'' \<and>
   ''https://www.gov.uk'' \<noteq> ''[GOV.UK](https://www.gov.uk)''"
  unfolding nested_link_def by code_simp

text \<open>
  C2, amended. For every anchor element whose href attribute is a non-empty
  string and that does not follow a sibling whose text ends in \<^verbatim>\<open>](\<close>, and
  for every converted content \<open>T\<close>: the rule of the source that converts the
  anchor is the link rule; when \<open>T\<close> trimmed is not empty it emits exactly
  \<^verbatim>\<open>[T](href)\<close>, and when \<open>T\<close> trims to the empty string it emits the empty
  string, which holds neither brackets nor the href.
\<close>

theorem link_rule_converts_anchor:
  assumes "link_filter node"
      and "getAttribute node ''href'' = Some href"
      and "\<not> cleanUpNestedLinks_filter node previous"
  shows "anchor_rule node previous = Link \<and> href \<noteq> [] \<and>
         link_replacement T node =
           (if trim T = [] then [] else ''['' @ T @ '']('' @ href @ '')'')"
  using assms by (simp add: anchor_rule_def link_filter_def link_replacement_def)

text \<open>\<^verbatim>\<open><p>See <a href="https://www.gov.uk">GOV.UK</a></p>\<close>\<close>

definition plain_link :: dom where
  "plain_link = Element ''P'' []
     [Text ''See '', Element ''A'' [(''href'', ''https://www.gov.uk'')] [Text ''GOV.UK'']]"

theorem link_rule_converts_anchor_witness:
  "link_filter (childNodes plain_link ! 1) \<and>
   getAttribute (childNodes plain_link ! 1) ''href'' = Some ''https://www.gov.uk'' \<and>
   \<not> cleanUpNestedLinks_filter (childNodes plain_link ! 1) (previousSibling plain_link 1) \<and>
   anchor_rule (childNodes plain_link ! 1) (previousSibling plain_link 1) = Link \<and>
   link_replacement ''GOV.UK'' (childNodes plain_link ! 1) = ''[GOV.UK](https://www.gov.uk)'' \<and>
   link_replacement ''  '' (childNodes plain_link ! 1) = []"
proof -
  let ?a = "childNodes plain_link ! 1"
  let ?p = "previousSibling plain_link 1"
  have f: "link_filter ?a"
    unfolding plain_link_def by code_simp
  have g: "getAttribute ?a ''href'' = Some ''https://www.gov.uk''"
    by (simp add: plain_link_def)
  have n: "\<not> cleanUpNestedLinks_filter ?a ?p"
    unfolding plain_link_def by code_simp
  have t1: "trim ''GOV.UK'' \<noteq> []" and t2: "trim ''  '' = []"
    by (simp_all add: trim_def isSpace_def)
  from link_rule_converts_anchor [OF f g n, of "''GOV.UK''"] t1
  have r1: "anchor_rule ?a ?p = Link"
    and r2: "link_replacement ''GOV.UK'' ?a = ''[GOV.UK](https://www.gov.uk)''"
    by simp_all
  from link_rule_converts_anchor [OF f g n, of "''  ''"] t2
  have r3: "link_replacement ''  '' ?a = []"
    by simp
  from f g n r1 r2 r3 show ?thesis
    by blast
qed

section \<open>Abbreviations\<close>

definition police_numbers :: "(string \<times> dom) list" where
  "police_numbers =
    [(''999'', Element ''ABBR'' [(''title'', ''emergency number'')] [Text ''999'']),
     (''101'', Element ''ABBR'' [(''title'', ''non-emergency number'')] [Text ''101''])]"

text \<open>
  C3, as the specification states it, fails on the order of the reference
  lines. In \<^verbatim>\<open><abbr title="emergency number">999</abbr>\<close> followed by
  \<^verbatim>\<open><abbr title="non-emergency number">101</abbr>\<close> the rule matches both elements
  and meets 999 first, but both texts are array indices, which the loop of
  \<^verbatim>\<open>append\<close> visits by ascending value: the line of 101 comes first.
\<close>

theorem abbr_order_counterexample:
  "list_all (\<lambda>(content, node). abbr_filter node) police_numbers \<and>
   fst (abbr_append (abbr_record [] police_numbers)) =
     [NL, NL] @ ''*[101]: non-emergency number'' @ [NL] @ ''*[999]: emergency number'' @ [NL] \<and>
   fst (abbr_append (abbr_record [] police_numbers)) \<noteq>
     [NL, NL] @ ''*[999]: emergency number'' @ [NL] @ ''*[101]: non-emergency number'' @ [NL]"
  unfolding police_numbers_def by code_simp

text \<open>
  C3, amended. Let \<open>es\<close> be the abbr elements that the rule matches, in document
  order, each with its converted content, and let no content be an array index
  or \<^verbatim>\<open>__proto__\<close>. The rule converts an element with content \<open>T\<close> to \<open>T\<close>
  unchanged and records \<open>T\<close> with the title in the accumulator. After the traversal the
  finalizer returns the empty string when \<open>es\<close> is empty; otherwise it returns
  two line feeds followed by one line \<^verbatim>\<open>*[ABBR]: title\<close> for each distinct
  content, in the order in which the contents were first met, with the title
  recorded last for it. In both cases it leaves the accumulator empty.
\<close>

theorem abbr_references_first_seen:
  assumes "\<forall>(content, node) \<in> set es.
             abbr_filter node \<and> \<not> isArrayIndex content \<and> content \<noteq> ''__proto__''"
  shows "fst (abbr_replacement T abbr_node references) = T \<and>
         snd (abbr_replacement T abbr_node references) =
           obj_set references T (getAttribute abbr_node ''title'') \<and>
         abbr_append (abbr_record [] es) =
           (if es = [] then ([], [])
            else ([NL, NL] @
                  concat (map (\<lambda>abbr. ''*['' @ abbr @ '']: '' @ recordedTitle es abbr @ [NL])
                            (firstSeen (map fst es))),
                  []))"
proof -
  have np: "''__proto__'' \<notin> set (map fst es)"
    using assms by auto
  have keys: "map fst (abbr_record [] es) = firstSeen (map fst es)"
    using keys_abbr_record [OF np, of "[]"] by simp
  have "\<forall>key \<in> set (map fst (abbr_record [] es)). \<not> isArrayIndex key"
    unfolding keys set_firstSeen using assms by auto
  then have "ownKeys (abbr_record [] es) = map fst (abbr_record [] es)"
    by (rule ownKeys_no_index)
  then have own: "ownKeys (abbr_record [] es) = firstSeen (map fst es)"
    by (simp only: keys)
  have app: "abbr_append (abbr_record [] es) =
      (if es = [] then ([], [])
       else ([NL, NL] @
             concat (map (\<lambda>abbr. ''*['' @ abbr @ '']: '' @ recordedTitle es abbr @ [NL])
                       (firstSeen (map fst es))),
             []))"
  proof (cases es)
    case Nil
    then show ?thesis
      by (simp add: abbr_append_def abbr_record_Nil ownKeys_def)
  next
    case (Cons e es')
    then have ne: "es \<noteq> []" by simp
    have "firstSeen (map fst es) \<noteq> []"
      unfolding Cons by simp
    then have "length (ownKeys (abbr_record [] es)) \<noteq> 0"
      by (simp add: own)
    then show ?thesis
      using ne
      by (simp add: abbr_append_def foldl_append_lines own obj_template_abbr_record [OF np])
  qed
  show ?thesis
    using app by (simp add: abbr_replacement_def)
qed

definition government :: "(string \<times> dom) list" where
  "government =
    [(''HMG'', Element ''ABBR'' [(''title'', ''Her Majesty's Government'')] [Text ''HMG'']),
     (''UK'', Element ''ABBR'' [(''title'', ''United Kingdom'')] [Text ''UK'']),
     (''HMG'', Element ''ABBR'' [(''title'', ''Her Majesty's Government'')] [Text ''HMG''])]"

theorem abbr_references_first_seen_witness:
  "list_all (\<lambda>(content, node).
      abbr_filter node \<and> \<not> isArrayIndex content \<and> content \<noteq> ''__proto__'') government \<and>
   abbr_append (abbr_record [] government) =
     ([NL, NL] @ ''*[HMG]: Her Majesty's Government'' @ [NL] @
       ''*[UK]: United Kingdom'' @ [NL], [])"
proof -
  have h: "list_all (\<lambda>(content, node).
      abbr_filter node \<and> \<not> isArrayIndex content \<and> content \<noteq> ''__proto__'') government"
    unfolding government_def by code_simp
  then have h': "\<forall>(content, node) \<in> set government.
      abbr_filter node \<and> \<not> isArrayIndex content \<and> content \<noteq> ''__proto__''"
    by (simp add: list_all_iff)
  have e: "(if government = [] then ([], [])
            else ([NL, NL] @
                  concat (map (\<lambda>abbr. ''*['' @ abbr @ '']: '' @ recordedTitle government abbr @ [NL])
                            (firstSeen (map fst government))),
                  [])) =
        ([NL, NL] @ ''*[HMG]: Her Majesty's Government'' @ [NL] @
          ''*[UK]: United Kingdom'' @ [NL], [])"
    unfolding government_def by (simp add: recordedTitle_def)
  from abbr_references_first_seen [OF h']
  have "abbr_append (abbr_record [] government) =
     ([NL, NL] @ ''*[HMG]: Her Majesty's Government'' @ [NL] @
       ''*[UK]: United Kingdom'' @ [NL], [])"
    by (simp only: e)
  with h show ?thesis
    by blast
qed

section \<open>Ordered lists\<close>

text \<open>
  C4. For the li element at position \<open>i\<close> of a parent ol, the prefix of the
  listItems rule is the decimal form of one plus the number of li elements
  before position \<open>i\<close> among the parent's child nodes, followed by a period and
  a space: the 1-based index of the item among the li children, so that other
  siblings do not count. The replacement is this prefix followed by the
  indented content and, when a sibling follows and the content does not end
  with a line feed, a line feed.
\<close>

theorem listItems_numbering:
  assumes "toLowerCase (nodeName parent) = ''ol''"
      and "i < length (childNodes parent)"
      and "isListItem (childNodes parent ! i)"
  shows "listItems_prefix parent i opts =
           toString (1 + int (length (filter isListItem (take i (childNodes parent))))) @ ''. '' \<and>
         listItems_replacement content parent i opts =
           listItems_prefix parent i opts @
           indentNewlines (listIndent opts)
             (replaceTrailingNewlines (removeLeadingNewlines content) [NL]) @
           (if nextSibling parent i \<noteq> None \<and>
               \<not> endsWithNewline (indentNewlines (listIndent opts)
                    (replaceTrailingNewlines (removeLeadingNewlines content) [NL]))
            then [NL] else [])"
  using assms(1) listItems_index [OF assms(2,3)]
  by (simp add: listItems_prefix_def listItems_replacement_def Let_def add.commute)

text \<open>The example of the specification: \<^verbatim>\<open><ol><li>A</li><script>x</script><li>B</li></ol>\<close>.\<close>

definition ol_example :: dom where
  "ol_example = Element ''OL'' []
     [Element ''LI'' [] [Text ''A''],
      Element ''SCRIPT'' [] [Text ''x''],
      Element ''LI'' [] [Text ''B'']]"

theorem listItems_numbering_witness:
  "toLowerCase (nodeName ol_example) = ''ol'' \<and>
   2 < length (childNodes ol_example) \<and>
   isListItem (childNodes ol_example ! 2) \<and>
   listItems_prefix ol_example 2 service_options = ''2. '' \<and>
   listItems_replacement ''A'' ol_example 0 service_options = ''1. A'' @ [NL] \<and>
   listItems_replacement ''B'' ol_example 2 service_options = ''2. B''"
proof -
  have a: "toLowerCase (nodeName ol_example) = ''ol''"
    unfolding ol_example_def by code_simp
  have b: "2 < length (childNodes ol_example)"
    by (simp add: ol_example_def)
  have c: "isListItem (childNodes ol_example ! 2)"
    unfolding ol_example_def by code_simp
  have e: "toString (1 + int (length (filter isListItem (take 2 (childNodes ol_example))))) @ ''. ''
      = ''2. ''"
    unfolding ol_example_def by code_simp
  from listItems_numbering [OF a b c, of service_options]
  have p: "listItems_prefix ol_example 2 service_options = ''2. ''"
    by (simp only: e)
  have r0: "listItems_replacement ''A'' ol_example 0 service_options = ''1. A'' @ [NL]"
    unfolding ol_example_def by code_simp
  have r2: "listItems_replacement ''B'' ol_example 2 service_options = ''2. B''"
    unfolding ol_example_def by code_simp
  from a b c p r0 r2 show ?thesis
    by blast
qed

section \<open>The order of the post-processing steps\<close>

text \<open>
  C5, as the specification states it (line-break collapse, then heading
  de-listing, then trim), fails: on the text \<^verbatim>\<open>"1.\n  \n## H"\<close> the collapse
  would first join the number and the heading marker, which the de-listing
  would then rewrite to \<^verbatim>\<open>"## H"\<close>. \<^verbatim>\<open>postProcess\<close> de-lists first, when the
  marker line still separates them, and returns \<^verbatim>\<open>"1.\n## H"\<close>.
\<close>

theorem postProcess_spec_order_counterexample:
  "postProcess ''1.\<newline>  \<newline>## H'' = ''1.\<newline>## H'' \<and>
   postProcess_spec_order ''1.\<newline>  \<newline>## H'' = ''## H'' \<and>
   postProcess ''1.\<newline>  \<newline>## H'' \<noteq> postProcess_spec_order ''1.\<newline>  \<newline>## H''"
  by (simp add: postProcess_def postProcess_spec_order_def trim_def isSpace_def
      isDigit_def br_def)

text \<open>
  C5, amended. \<^verbatim>\<open>postProcess\<close> applies three transformations to the whole text,
  in this order: first the heading de-listing, second the orphaned line-break
  collapse, third the trim. On the example of the specification,
  \<^verbatim>\<open>"1. ## Heading"\<close>, it returns \<^verbatim>\<open>"## Heading"\<close>, and it reduces the text of the
  source's comment, \<^verbatim>\<open>"Text\n\n  \n\nMore Text"\<close>, to \<^verbatim>\<open>"Text\n\nMore Text"\<close>.
\<close>

theorem postProcess_order:
  "postProcess govspeak = trim (removeBrParagraphs (extractHeadingsFromLists govspeak)) \<and>
   postProcess ''1. ## Heading'' = ''## Heading'' \<and>
   postProcess ''Text\<newline>\<newline>  \<newline>\<newline>More Text'' = ''Text\<newline>\<newline>More Text''"
  by (simp add: postProcess_def trim_def isSpace_def isDigit_def br_def)

section \<open>Independent conversions\<close>








section \<open>No escaping\<close>

text \<open>
  C10, as the specification states it, fails on its last part: pasted Markdown
  does not always survive unchanged. The escape step leaves the text
  \<^verbatim>\<open>1. ## Heading\<close> as it is, but the post-processing that follows takes the
  number away.
\<close>

theorem postProcess_rewrites_markdown_counterexample:
  "postProcess (escape ''1. ## Heading'') = ''## Heading'' \<and>
   postProcess (escape ''1. ## Heading'') \<noteq> ''1. ## Heading''"
  by (simp add: escape_def postProcess_def trim_def isSpace_def isDigit_def br_def)

text \<open>
  C10, amended. The escape step is the identity, so no character of a pasted
  text is escaped with a backslash. After the escape step and the
  post-processing the text is unchanged exactly when it holds no numbered
  heading marker (digit, period, whitespace character, \<^verbatim>\<open>##\<close>) and no
  orphaned marker line and neither starts nor ends with a whitespace
  character. The characters \<^verbatim>\<open>*\<close>, \<^verbatim>\<open>_\<close>, \<^verbatim>\<open>[\<close> and \<^verbatim>\<open>]\<close> play no part
  in these conditions, and \<^verbatim>\<open>#\<close> only behind a number.
\<close>

theorem text_survives:
  "escape pasted = pasted \<and>
   (postProcess (escape pasted) = pasted \<longleftrightarrow>
      \<not> listedHeading pasted \<and> \<not> brParagraph pasted \<and>
      (pasted = [] \<or> (\<not> isSpace (hd pasted) \<and> \<not> isSpace (last pasted))))"
proof -
  let ?a = "extractHeadingsFromLists pasted"
  let ?b = "removeBrParagraphs ?a"
  have pp: "postProcess pasted = trim ?b"
    by (simp add: postProcess_def)
  have le: "length (trim ?b) \<le> length ?b" "length ?b \<le> length ?a" "length ?a \<le> length pasted"
    by (rule length_trim, rule length_removeBrParagraphs, rule length_extractHeadingsFromLists)
  have "postProcess pasted = pasted \<longleftrightarrow>
      \<not> listedHeading pasted \<and> \<not> brParagraph pasted \<and>
      (pasted = [] \<or> (\<not> isSpace (hd pasted) \<and> \<not> isSpace (last pasted)))"
  proof (cases "listedHeading pasted")
    case True
    then have "length ?a < length pasted" by (rule extractHeadingsFromLists_shorter)
    with le have "length (postProcess pasted) < length pasted" by (simp add: pp)
    then have "postProcess pasted \<noteq> pasted" by auto
    with True show ?thesis by blast
  next
    case nh: False
    then have a: "?a = pasted" by (rule extractHeadingsFromLists_id)
    show ?thesis
    proof (cases "brParagraph pasted")
      case True
      then have "length (removeBrParagraphs pasted) < length pasted"
        by (rule removeBrParagraphs_shorter)
      with le have "length (postProcess pasted) < length pasted" by (simp add: pp a)
      then have "postProcess pasted \<noteq> pasted" by auto
      with True show ?thesis by blast
    next
      case nb: False
      then have b: "removeBrParagraphs pasted = pasted" by (rule removeBrParagraphs_id)
      have p: "postProcess pasted = trim pasted" by (simp only: pp a b)
      show ?thesis
      proof (cases "pasted = [] \<or> (\<not> isSpace (hd pasted) \<and> \<not> isSpace (last pasted))")
        case True
        then have "trim pasted = pasted" by (rule trim_id)
        with True nh nb p show ?thesis by simp
      next
        case False
        then have "length (trim pasted) < length pasted"
          using trim_shorter [of pasted] by blast
        then have "postProcess pasted \<noteq> pasted" using p by auto
        with False show ?thesis by blast
      qed
    qed
  qed
  then show ?thesis by (simp add: escape_def)
qed

theorem text_survives_witness:
  "\<not> listedHeading ''# *a* _b_ [c](d)'' \<and> \<not> brParagraph ''# *a* _b_ [c](d)'' \<and>
   \<not> isSpace (hd ''# *a* _b_ [c](d)'') \<and> \<not> isSpace (last ''# *a* _b_ [c](d)'') \<and>
   escape ''# *a* _b_ [c](d)'' = ''# *a* _b_ [c](d)'' \<and>
   postProcess (escape ''# *a* _b_ [c](d)'') = ''# *a* _b_ [c](d)''"
proof -
  let ?t = "''# *a* _b_ [c](d)''"
  have c: "\<not> listedHeading ?t" "\<not> brParagraph ?t" "\<not> isSpace (hd ?t)" "\<not> isSpace (last ?t)"
    by (simp_all add: isDigit_def isSpace_def br_def)
  from text_survives [of ?t] c
  have "escape ?t = ?t" and "postProcess (escape ?t) = ?t"
    by blast+
  with c show ?thesis by blast
qed

end
